theory Spec2Isabelle
  imports Complex_Main
begin

section \<open>Characters and strings\<close>

text \<open>
  The extractors of \<^verbatim>\<open>main.py\<close> work on Python \<^verbatim>\<open>str\<close> values. A text is modelled as
  a \<^typ>\<open>string\<close> whose characters are the code points U+0000 to U+00FF; the character
  classes below follow CPython's Unicode tables on that range (\<^verbatim>\<open>str.isspace\<close>,
  \<^verbatim>\<open>str.isalnum\<close>, \<^verbatim>\<open>str.lower\<close>, and the classes \<^verbatim>\<open>\s\<close>, \<^verbatim>\<open>\d\<close>, \<^verbatim>\<open>\w\<close> of
  \<^verbatim>\<open>re\<close> on \<^verbatim>\<open>str\<close> patterns).
\<close>

definition ascii_digits :: string where
  "ascii_digits = ''0123456789''"

definition ascii_lowercase :: string where
  "ascii_lowercase = ''abcdefghijklmnopqrstuvwxyz''"

definition ascii_uppercase :: string where
  "ascii_uppercase = ''ABCDEFGHIJKLMNOPQRSTUVWXYZ''"

text \<open>The upper-case letters U+00C0 to U+00DE (without the sign U+00D7).\<close>

definition latin1_uppercase :: string where
  "latin1_uppercase =
     [CHR 0xC0, CHR 0xC1, CHR 0xC2, CHR 0xC3, CHR 0xC4, CHR 0xC5, CHR 0xC6, CHR 0xC7,
      CHR 0xC8, CHR 0xC9, CHR 0xCA, CHR 0xCB, CHR 0xCC, CHR 0xCD, CHR 0xCE, CHR 0xCF,
      CHR 0xD0, CHR 0xD1, CHR 0xD2, CHR 0xD3, CHR 0xD4, CHR 0xD5, CHR 0xD6,
      CHR 0xD8, CHR 0xD9, CHR 0xDA, CHR 0xDB, CHR 0xDC, CHR 0xDD, CHR 0xDE]"

text \<open>Their lower-case forms U+00E0 to U+00FE (without the sign U+00F7), in the same order.\<close>

definition latin1_lowercase :: string where
  "latin1_lowercase =
     [CHR 0xE0, CHR 0xE1, CHR 0xE2, CHR 0xE3, CHR 0xE4, CHR 0xE5, CHR 0xE6, CHR 0xE7,
      CHR 0xE8, CHR 0xE9, CHR 0xEA, CHR 0xEB, CHR 0xEC, CHR 0xED, CHR 0xEE, CHR 0xEF,
      CHR 0xF0, CHR 0xF1, CHR 0xF2, CHR 0xF3, CHR 0xF4, CHR 0xF5, CHR 0xF6,
      CHR 0xF8, CHR 0xF9, CHR 0xFA, CHR 0xFB, CHR 0xFC, CHR 0xFD, CHR 0xFE]"

text \<open>
  The other alphanumeric characters below U+0100: the ordinal indicators, the micro
  sign, the superscript digits, the fractions, the sharp s and the y with diaeresis.
\<close>

definition latin1_other :: string where
  "latin1_other =
     [CHR 0xAA, CHR 0xB2, CHR 0xB3, CHR 0xB5, CHR 0xB9, CHR 0xBA, CHR 0xBC, CHR 0xBD,
      CHR 0xBE, CHR 0xDF, CHR 0xFF]"

text \<open>\<^verbatim>\<open>str.isspace\<close> and \<^verbatim>\<open>\s\<close>: U+0009 to U+000D, U+001C to U+0020, U+0085, U+00A0.\<close>

definition whitespace :: string where
  "whitespace =
     [CHR '' '', CHR 0x09, CHR 0x0A, CHR 0x0B, CHR 0x0C, CHR 0x0D, CHR 0x1C, CHR 0x1D,
      CHR 0x1E, CHR 0x1F, CHR 0x85, CHR 0xA0]"

definition is_space :: "char \<Rightarrow> bool" where
  "is_space c = (c \<in> set whitespace)"

text \<open>\<^verbatim>\<open>\d\<close>: the decimal digits below U+0100 are the ASCII ones.\<close>

definition is_digit :: "char \<Rightarrow> bool" where
  "is_digit c = (c \<in> set ascii_digits)"

text \<open>\<^verbatim>\<open>[a-z]\<close> and \<^verbatim>\<open>[A-Z]\<close>\<close>

definition is_az :: "char \<Rightarrow> bool" where
  "is_az c = (c \<in> set ascii_lowercase)"

definition is_AZ :: "char \<Rightarrow> bool" where
  "is_AZ c = (c \<in> set ascii_uppercase)"

text \<open>\<^verbatim>\<open>\w\<close>: alphanumeric (\<^verbatim>\<open>str.isalnum\<close>) or the underscore.\<close>

definition is_word :: "char \<Rightarrow> bool" where
  "is_word c =
     (is_az c \<or> is_digit c \<or> is_AZ c \<or> c = CHR ''_'' \<or>
      c \<in> set (latin1_lowercase @ latin1_uppercase @ latin1_other))"

text \<open>
  \<^verbatim>\<open>str.lower\<close>, character by character: the lower-case form of an upper-case letter
  below U+0100 lies 32 code points above it, which sets bit 5 of the letter.
\<close>

definition lower_char :: "char \<Rightarrow> char" where
  "lower_char c =
     (if c \<in> set (ascii_uppercase @ latin1_uppercase)
      then (case c of Char b0 b1 b2 b3 b4 b5 b6 b7 \<Rightarrow> Char b0 b1 b2 b3 b4 True b6 b7)
      else c)"

definition str_lower :: "string \<Rightarrow> string" where
  "str_lower s = map lower_char s"

definition str_strip :: "string \<Rightarrow> string" where
  "str_strip s = rev (dropWhile is_space (rev (dropWhile is_space s)))"

fun split_acc :: "string \<Rightarrow> string \<Rightarrow> string list" where
  "split_acc w [] = (if w = [] then [] else [w])"
| "split_acc w (c # cs) =
     (if is_space c then (if w = [] then split_acc [] cs else w # split_acc [] cs)
      else split_acc (w @ [c]) cs)"

definition str_split :: "string \<Rightarrow> string list" where
  "str_split s = split_acc [] s"

fun str_join :: "string \<Rightarrow> string list \<Rightarrow> string" where
  "str_join sep [] = []"
| "str_join sep [w] = w"
| "str_join sep (w # ws) = w @ sep @ str_join sep ws"

fun startswith :: "string \<Rightarrow> string \<Rightarrow> bool" where
  "startswith s p = (take (length p) s = p)"

fun contains :: "string \<Rightarrow> string \<Rightarrow> bool" where
  "contains [] p = (p = [])"
| "contains (c # cs) p = (startswith (c # cs) p \<or> contains cs p)"

text \<open>Python's slice \<^verbatim>\<open>xs[a:b]\<close> for \<open>0 \<le> a\<close>, \<open>0 \<le> b\<close>: out-of-range bounds are clipped.\<close>

definition slice :: "'a list \<Rightarrow> nat \<Rightarrow> nat \<Rightarrow> 'a list" where
  "slice xs a b = take (b - a) (drop a xs)"

section \<open>Regular expressions\<close>

text \<open>
  The fragment of Python's \<^verbatim>\<open>re\<close> syntax used by the extractors. \<open>Rep p lo hi\<close> is a
  greedy repetition of a one-character class (\<^verbatim>\<open>\d+\<close>, \<^verbatim>\<open>\s*\<close>, \<^verbatim>\<open>[a-z ]{1,30}\<close>, one
  character when \<open>lo = 1\<close> and \<open>hi = Some 1\<close>); \<open>Opt\<close> is the greedy \<^verbatim>\<open>?\<close>; \<open>Grp\<close> is a
  capturing group with its number; \<open>WordB\<close> is \<^verbatim>\<open>\b\<close> and \<open>Eol\<close> is \<^verbatim>\<open>$\<close>. \<open>StrI\<close> is a
  literal under \<^verbatim>\<open>re.I\<close>.
\<close>

datatype regex =
    Str string
  | StrI string
  | Rep "char \<Rightarrow> bool" nat "nat option"
  | Seq regex regex
  | Alt regex regex
  | Opt regex
  | Grp nat regex
  | WordB
  | Eol

definition one_of :: "(char \<Rightarrow> bool) \<Rightarrow> regex" where
  "one_of p = Rep p 1 (Some 1)"

definition many0 :: "(char \<Rightarrow> bool) \<Rightarrow> regex" where
  "many0 p = Rep p 0 None"

definition many1 :: "(char \<Rightarrow> bool) \<Rightarrow> regex" where
  "many1 p = Rep p 1 None"

fun cat :: "regex list \<Rightarrow> regex" where
  "cat [] = Str []"
| "cat [r] = r"
| "cat (r # rs) = Seq r (cat rs)"

fun alts :: "regex list \<Rightarrow> regex" where
  "alts [] = Rep (\<lambda>c. False) 1 (Some 1)"
| "alts [r] = r"
| "alts (r # rs) = Alt r (alts rs)"

text \<open>
  \<^verbatim>\<open>flags=re.I\<close>: literals compare modulo case. The classes of the two patterns compiled
  with the flag (\<^verbatim>\<open>\d\<close>, \<^verbatim>\<open>\s\<close>, \<^verbatim>\<open>[:=]\<close>) hold no cased character and stay as they are.
\<close>

primrec ignorecase :: "regex \<Rightarrow> regex" where
  "ignorecase (Str s) = StrI s"
| "ignorecase (StrI s) = StrI s"
| "ignorecase (Rep p lo hi) = Rep p lo hi"
| "ignorecase (Seq a b) = Seq (ignorecase a) (ignorecase b)"
| "ignorecase (Alt a b) = Alt (ignorecase a) (ignorecase b)"
| "ignorecase (Opt a) = Opt (ignorecase a)"
| "ignorecase (Grp g a) = Grp g (ignorecase a)"
| "ignorecase WordB = WordB"
| "ignorecase Eol = Eol"

text \<open>
  A position in the text: the characters to its left, nearest first, and the characters
  to its right; with it the groups captured so far, latest first.
\<close>

type_synonym caps = "(nat \<times> string) list"

datatype mstate = St (left: string) (right: string) (caps: caps)

definition advance :: "nat \<Rightarrow> mstate \<Rightarrow> mstate" where
  "advance n st = St (rev (take n (right st)) @ left st) (drop n (right st)) (caps st)"

definition word_hd :: "string \<Rightarrow> bool" where
  "word_hd s = (case s of [] \<Rightarrow> False | c # cs \<Rightarrow> is_word c)"

text \<open>\<^verbatim>\<open>\b\<close>: exactly one of the two neighbours is a word character.\<close>

definition boundary :: "mstate \<Rightarrow> bool" where
  "boundary st = (word_hd (left st) \<noteq> word_hd (right st))"

text \<open>\<^verbatim>\<open>$\<close>: the end of the text, or just before a newline that ends it.\<close>

definition at_eol :: "mstate \<Rightarrow> bool" where
  "at_eol st = (right st = [] \<or> right st = [CHR 0x0A])"

text \<open>The text between two positions of the same text, the second to the right of the first.\<close>

definition consumed :: "mstate \<Rightarrow> mstate \<Rightarrow> string" where
  "consumed st st' = take (length (right st) - length (right st')) (right st)"

text \<open>
  The backtracking matcher: \<open>rmatch r st\<close> lists, in the order in which Python's engine
  tries them, the states in which \<open>r\<close> can match from \<open>st\<close>. The head of the list is the
  match the engine reports.
\<close>

primrec rmatch :: "regex \<Rightarrow> mstate \<Rightarrow> mstate list" where
  "rmatch (Str s) st =
     (if take (length s) (right st) = s then [advance (length s) st] else [])"
| "rmatch (StrI s) st =
     (if map lower_char (take (length s) (right st)) = map lower_char s
      then [advance (length s) st] else [])"
| "rmatch (Rep p lo hi) st =
     (let n = length (takeWhile p (right st));
          k = (case hi of None \<Rightarrow> n | Some h \<Rightarrow> min n h)
      in map (\<lambda>j. advance j st) (rev [lo..<Suc k]))"
| "rmatch (Seq a b) st = concat (map (rmatch b) (rmatch a st))"
| "rmatch (Alt a b) st = rmatch a st @ rmatch b st"
| "rmatch (Opt a) st = rmatch a st @ [st]"
| "rmatch (Grp g a) st =
     map (\<lambda>st'. St (left st') (right st') ((g, consumed st st') # caps st')) (rmatch a st)"
| "rmatch WordB st = (if boundary st then [st] else [])"
| "rmatch Eol st = (if at_eol st then [st] else [])"

text \<open>
  A match object: the text before the match, the matched text (\<^verbatim>\<open>m.group(0)\<close>), the text
  after it, and the groups.
\<close>

record mtch =
  m_pre :: string
  m_text :: string
  m_post :: string
  m_groups :: caps

definition mk_match :: "mstate \<Rightarrow> mstate \<Rightarrow> mtch" where
  "mk_match st st' =
     \<lparr>m_pre = rev (left st), m_text = consumed st st', m_post = right st', m_groups = caps st'\<rparr>"

text \<open>\<^verbatim>\<open>m.group(g)\<close> for \<open>1 \<le> g\<close>; a group that took no part in the match is \<open>None\<close>.\<close>

definition group :: "mtch \<Rightarrow> nat \<Rightarrow> string option" where
  "group m g = map_of (m_groups m) g"

text \<open>\<^verbatim>\<open>re.search\<close>: the first position, from the left, at which the pattern matches.\<close>

fun search_at :: "regex \<Rightarrow> string \<Rightarrow> string \<Rightarrow> mtch option" where
  "search_at r l [] =
     (case rmatch r (St l [] []) of
        [] \<Rightarrow> None
      | st' # sts \<Rightarrow> Some (mk_match (St l [] []) st'))"
| "search_at r l (c # cs) =
     (case rmatch r (St l (c # cs) []) of
        [] \<Rightarrow> search_at r (c # l) cs
      | st' # sts \<Rightarrow> Some (mk_match (St l (c # cs) []) st'))"

definition search :: "regex \<Rightarrow> string \<Rightarrow> mtch option" where
  "search r t = search_at r [] t"

text \<open>
  \<^verbatim>\<open>re.finditer\<close>: the non-overlapping matches from left to right, here together with
  the characters between them. \<open>scan r n l cs\<close> stands at the position between \<open>l\<close> and
  \<open>cs\<close>; the next \<open>n\<close> characters belong to the match just found. After an empty match
  the engine looks at the same position for a match that is not empty, then moves on.
\<close>

fun scan :: "regex \<Rightarrow> nat \<Rightarrow> string \<Rightarrow> string \<Rightarrow> (char + mtch) list" where
  "scan r (Suc n) l [] = []"
| "scan r (Suc n) l (c # cs) = scan r n (c # l) cs"
| "scan r 0 l [] =
     (case rmatch r (St l [] []) of
        [] \<Rightarrow> []
      | st' # sts \<Rightarrow> [Inr (mk_match (St l [] []) st')])"
| "scan r 0 l (c # cs) =
     (let st = St l (c # cs) [] in
      case rmatch r st of
        [] \<Rightarrow> Inl c # scan r 0 (c # l) cs
      | st' # sts \<Rightarrow>
          (if consumed st st' \<noteq> [] then
             Inr (mk_match st st') # scan r (length (consumed st st') - 1) (c # l) cs
           else Inr (mk_match st st') #
             (case filter (\<lambda>st'. consumed st st' \<noteq> []) sts of
                [] \<Rightarrow> Inl c # scan r 0 (c # l) cs
              | st' # sts' \<Rightarrow>
                  Inr (mk_match st st') # scan r (length (consumed st st') - 1) (c # l) cs)))"

definition matches_of :: "(char + mtch) list \<Rightarrow> mtch list" where
  "matches_of xs = concat (map (\<lambda>x. case x of Inl c \<Rightarrow> [] | Inr m \<Rightarrow> [m]) xs)"

definition finditer :: "regex \<Rightarrow> string \<Rightarrow> mtch list" where
  "finditer r t = matches_of (scan r 0 [] t)"

text \<open>\<^verbatim>\<open>re.findall\<close> for a pattern without groups: the matched substrings.\<close>

definition findall :: "regex \<Rightarrow> string \<Rightarrow> string list" where
  "findall r t = map m_text (finditer r t)"

text \<open>\<^verbatim>\<open>re.sub\<close> with a replacement string that holds no group reference.\<close>

definition re_sub :: "regex \<Rightarrow> string \<Rightarrow> string \<Rightarrow> string" where
  "re_sub r repl t = concat (map (\<lambda>x. case x of Inl c \<Rightarrow> [c] | Inr m \<Rightarrow> repl) (scan r 0 [] t))"

section \<open>Exceptions and numbers\<close>

datatype error = ValueError | TypeError | OverflowError | AttributeError | IndexError

definition and_then :: "error + 'a \<Rightarrow> ('a \<Rightarrow> error + 'b) \<Rightarrow> error + 'b" where
  "and_then x f = (case x of Inl e \<Rightarrow> Inl e | Inr a \<Rightarrow> f a)"

text \<open>\<^verbatim>\<open>xs[i]\<close> for \<open>0 \<le> i\<close>: IndexError out of range.\<close>

definition index :: "'a list \<Rightarrow> nat \<Rightarrow> error + 'a" where
  "index xs i = (if i < length xs then Inr (xs ! i) else Inl IndexError)"

text \<open>
  A Python \<^verbatim>\<open>float\<close> is an IEEE 754 double. \<open>Fin m e\<close> is the finite double of value
  \<open>m * 2 ^ e\<close>. The sign of a zero is not kept: no operation below tells the two zeros
  apart.
\<close>

datatype pyfloat = Fin int int | PInf | NInf | NaN

definition pow2 :: "int \<Rightarrow> rat" where
  "pow2 k = (if 0 \<le> k then 2 ^ nat k else 1 / 2 ^ nat (- k))"

definition fval :: "pyfloat \<Rightarrow> rat" where
  "fval x = (case x of Fin m e \<Rightarrow> of_int m * pow2 e | _ \<Rightarrow> 0)"

text \<open>\<open>a / b\<close> rounded to the nearest integer, a tie to the even one, for \<open>0 < b\<close>.\<close>

definition rhe_div :: "int \<Rightarrow> int \<Rightarrow> int" where
  "rhe_div a b =
     (let q = a div b; r = a mod b
      in if 2 * r < b then q else if b < 2 * r then q + 1 else if even q then q else q + 1)"

text \<open>\<open>\<lfloor>log\<^sub>2 (a / b)\<rfloor>\<close> for \<open>0 < a\<close> and \<open>0 < b\<close>, from the bit lengths of \<open>a\<close> and \<open>b\<close>.\<close>

function bitlen :: "int \<Rightarrow> int" where
  "bitlen a = (if 0 < a then 1 + bitlen (a div 2) else 0)"
  by pat_completeness auto
termination
  by (relation "measure nat") auto

declare bitlen.simps [simp del]

definition ilog2 :: "int \<Rightarrow> int \<Rightarrow> int" where
  "ilog2 a b =
     (let k = bitlen a - bitlen b
      in if (if 0 \<le> k then b * 2 ^ nat k \<le> a else b \<le> a * 2 ^ nat (- k)) then k else k - 1)"

text \<open>
  \<open>round_ratio n d\<close> is the double nearest to \<open>n / d\<close> for \<open>0 < d\<close>: 53 significant bits,
  least exponent \<open>-1074\<close>, a tie to the even significand, an infinity from \<open>2 ^ 1024\<close> on.
\<close>

definition round_ratio :: "int \<Rightarrow> int \<Rightarrow> pyfloat" where
  "round_ratio n d =
     (if n = 0 then Fin 0 0
      else let a = \<bar>n\<bar>;
               e = max (ilog2 a d - 52) (- 1074);
               m = (if 0 \<le> e then rhe_div a (d * 2 ^ nat e) else rhe_div (a * 2 ^ nat (- e)) d)
           in if 0 \<le> e \<and> 2 ^ 1024 \<le> m * 2 ^ nat e then (if 0 < n then PInf else NInf)
              else Fin (if 0 < n then m else - m) e)"

definition round_scaled :: "int \<Rightarrow> int \<Rightarrow> pyfloat" where
  "round_scaled m e = (if 0 \<le> e then round_ratio (m * 2 ^ nat e) 1 else round_ratio m (2 ^ nat (- e)))"

text \<open>The product of two floats, as \<^verbatim>\<open>x * y\<close> computes it.\<close>

fun fmul :: "pyfloat \<Rightarrow> pyfloat \<Rightarrow> pyfloat" where
  "fmul (Fin m e) (Fin m' e') = round_scaled (m * m') (e + e')"
| "fmul NaN y = NaN"
| "fmul x NaN = NaN"
| "fmul (Fin m e) PInf = (if m = 0 then NaN else if 0 < m then PInf else NInf)"
| "fmul (Fin m e) NInf = (if m = 0 then NaN else if 0 < m then NInf else PInf)"
| "fmul PInf (Fin m e) = (if m = 0 then NaN else if 0 < m then PInf else NInf)"
| "fmul NInf (Fin m e) = (if m = 0 then NaN else if 0 < m then NInf else PInf)"
| "fmul PInf PInf = PInf"
| "fmul PInf NInf = NInf"
| "fmul NInf PInf = NInf"
| "fmul NInf NInf = PInf"

definition digit_val :: "char \<Rightarrow> int" where
  "digit_val c =
     (case map_of (zip ascii_digits [0, 1, 2, 3, 4, 5, 6, 7, 8, 9]) c of None \<Rightarrow> 0 | Some v \<Rightarrow> v)"

definition dec_val :: "string \<Rightarrow> int" where
  "dec_val s = foldl (\<lambda>a c. 10 * a + digit_val c) 0 s"

text \<open>
  \<^verbatim>\<open>float(s)\<close> for a string: surrounding whitespace is dropped, a sign may lead, and the
  decimal numeral \<^verbatim>\<open>digits\<close> or \<^verbatim>\<open>digits.digits\<close> is rounded to the nearest double. Python
  reads further spellings (an exponent, \<^verbatim>\<open>inf\<close>, \<^verbatim>\<open>nan\<close>, underscores, a missing integer or
  fraction part); the extractors never pass one, and this function answers them with
  ValueError, so it raises wherever Python raises.
\<close>

definition unsigned_float :: "string \<Rightarrow> error + int \<times> int" where
  "unsigned_float b =
     (let ip = takeWhile is_digit b; r = dropWhile is_digit b
      in if ip = [] then Inl ValueError
         else case r of
           [] \<Rightarrow> Inr (dec_val ip, 1)
         | c # fp \<Rightarrow>
             if c = CHR ''.'' \<and> fp \<noteq> [] \<and> list_all is_digit fp
             then Inr (dec_val (ip @ fp), 10 ^ length fp)
             else Inl ValueError)"

definition float_of_str :: "string \<Rightarrow> error + pyfloat" where
  "float_of_str s =
     (case str_strip s of
        [] \<Rightarrow> Inl ValueError
      | c # r \<Rightarrow>
          if c = CHR ''-'' then and_then (unsigned_float r) (\<lambda>(n, d). Inr (round_ratio (- n) d))
          else if c = CHR ''+'' then and_then (unsigned_float r) (\<lambda>(n, d). Inr (round_ratio n d))
          else and_then (unsigned_float (c # r)) (\<lambda>(n, d). Inr (round_ratio n d)))"

text \<open>The values that reach \<^verbatim>\<open>float(...)\<close> and \<^verbatim>\<open>_to_int_safe\<close>: None, a string, a float.\<close>

datatype pyvalue = VNone | VStr string | VFloat pyfloat

definition of_group :: "string option \<Rightarrow> pyvalue" where
  "of_group g = (case g of None \<Rightarrow> VNone | Some s \<Rightarrow> VStr s)"

definition py_float :: "pyvalue \<Rightarrow> error + pyfloat" where
  "py_float v = (case v of VNone \<Rightarrow> Inl TypeError | VStr s \<Rightarrow> float_of_str s | VFloat x \<Rightarrow> Inr x)"

text \<open>\<^verbatim>\<open>round(x)\<close> of a float: the nearest integer, ties to even; an infinity or NaN raises.\<close>

definition py_round :: "pyfloat \<Rightarrow> error + int" where
  "py_round x =
     (case x of
        Fin m e \<Rightarrow> Inr (if 0 \<le> e then m * 2 ^ nat e else rhe_div m (2 ^ nat (- e)))
      | PInf \<Rightarrow> Inl OverflowError
      | NInf \<Rightarrow> Inl OverflowError
      | NaN \<Rightarrow> Inl ValueError)"

text \<open>\<^verbatim>\<open>_to_int_safe\<close>: the \<^verbatim>\<open>try\<close> body as a result, and the \<^verbatim>\<open>except Exception\<close> around it.\<close>

definition to_int_body :: "pyvalue \<Rightarrow> error + int option" where
  "to_int_body v =
     (case v of
        VNone \<Rightarrow> Inr None
      | _ \<Rightarrow> and_then (py_float v) (\<lambda>x. and_then (py_round x) (\<lambda>n. Inr (Some n))))"

definition to_int_safe :: "pyvalue \<Rightarrow> int option" where
  "to_int_safe v = (case to_int_body v of Inl e \<Rightarrow> None | Inr r \<Rightarrow> r)"

section \<open>The vocabularies\<close>

definition KNOWN_LOCATIONS :: "string list" where
  "KNOWN_LOCATIONS =
     [''kitchen'', ''living room'', ''bedroom'', ''bathroom'', ''garage'', ''office'',
      ''dining room'', ''kids room'', ''study'', ''storeroom'', ''balcony'', ''hall'',
      ''laundry'', ''pantry'']"

definition DEVICE_KEYWORDS :: "string list" where
  "DEVICE_KEYWORDS =
     [''fridge'', ''refrigerator'', ''ac'', ''air conditioner'', ''washing machine'',
      ''microwave'', ''oven'', ''heater'', ''dishwasher'', ''fan'', ''tv'', ''television'',
      ''cooler'', ''freezer'', ''pump'', ''dryer'']"

definition NUMBER_WORDS :: "(string \<times> int) list" where
  "NUMBER_WORDS =
     [(''zero'', 0), (''one'', 1), (''two'', 2), (''three'', 3), (''four'', 4), (''five'', 5),
      (''six'', 6), (''seven'', 7), (''eight'', 8), (''nine'', 9), (''ten'', 10)]"

record DeviceDetails =
  name :: "string option"
  type :: "string option"
  powerwatts :: "int option"
  rating :: "int option"
  location :: "string option"

section \<open>The extractors\<close>

text \<open>
  \<^verbatim>\<open>(?P<num>\d+(?:\.\d+)?)\s*(?P<unit>k(?:ilo)?w(?:att)?s?|w(?:att)?s?)\b\<close> with \<^verbatim>\<open>re.I\<close>;
  \<^verbatim>\<open>num\<close> is group 1 and \<^verbatim>\<open>unit\<close> is group 2.
\<close>

definition power_pat :: regex where
  "power_pat = ignorecase (cat
     [Grp 1 (Seq (many1 is_digit) (Opt (Seq (Str ''.'') (many1 is_digit)))),
      many0 is_space,
      Grp 2 (Alt (cat [Str ''k'', Opt (Str ''ilo''), Str ''w'', Opt (Str ''att''), Opt (Str ''s'')])
                 (cat [Str ''w'', Opt (Str ''att''), Opt (Str ''s'')])),
      WordB])"

text \<open>\<^verbatim>\<open>(?:power|wattage)\s*[:=]?\s*(\d+)\<close> with \<^verbatim>\<open>re.I\<close>.\<close>

definition power_fallback_pat :: regex where
  "power_fallback_pat = ignorecase (cat
     [Alt (Str ''power'') (Str ''wattage''),
      many0 is_space,
      Opt (one_of (\<lambda>c. c = CHR '':'' \<or> c = CHR ''='')),
      many0 is_space,
      Grp 1 (many1 is_digit)])"

text \<open>
  The body of the loop over \<^verbatim>\<open>power_pat.finditer(t)\<close> returns in its first round, on
  either branch: only the first match is looked at.
\<close>

definition extract_power_watts :: "string \<Rightarrow> error + int option" where
  "extract_power_watts text =
     (let t = str_lower text in
      case finditer power_pat t of
        m # ms \<Rightarrow>
          and_then (py_float (of_group (group m 1))) (\<lambda>num.
            case group m 2 of
              None \<Rightarrow> Inl AttributeError
            | Some u \<Rightarrow>
                let unit = str_lower u in
                if startswith unit ''kw'' \<or> startswith unit ''kilo''
                then Inr (to_int_safe (VFloat (fmul num (Fin 1000 0))))
                else Inr (to_int_safe (VFloat num)))
      | [] \<Rightarrow>
          (case search power_fallback_pat t of
             Some m2 \<Rightarrow> Inr (to_int_safe (of_group (group m2 1)))
           | None \<Rightarrow> Inr None))"

text \<open>\<^verbatim>\<open>\b(\d+)\s*[-\s]*star[s]?\b\<close>\<close>

definition star_tail :: "regex list" where
  "star_tail =
     [many0 is_space, many0 (\<lambda>c. c = CHR ''-'' \<or> is_space c), Str ''star'',
      Opt (one_of (\<lambda>c. c = CHR ''s'')), WordB]"

definition rating_digit_pat :: regex where
  "rating_digit_pat = cat ([WordB, Grp 1 (many1 is_digit)] @ star_tail)"

text \<open>\<^verbatim>\<open>\b(zero|one|...|ten)\s*[-\s]*star[s]?\b\<close>, the alternatives in the order of the keys.\<close>

definition rating_word_pat :: regex where
  "rating_word_pat = cat ([WordB, Grp 1 (alts (map (\<lambda>kv. Str (fst kv)) NUMBER_WORDS))] @ star_tail)"

text \<open>\<^verbatim>\<open>\brating\s*(?:is|:)?\s*(\d+)\b\<close>\<close>

definition rating_fallback_pat :: regex where
  "rating_fallback_pat = cat
     [WordB, Str ''rating'', many0 is_space, Opt (Alt (Str ''is'') (Str '':'')), many0 is_space,
      Grp 1 (many1 is_digit), WordB]"

definition extract_rating :: "string \<Rightarrow> int option" where
  "extract_rating text =
     (let t = str_lower text in
      case search rating_digit_pat t of
        Some m \<Rightarrow> to_int_safe (of_group (group m 1))
      | None \<Rightarrow>
          (case search rating_word_pat t of
             Some m2 \<Rightarrow> (case group m2 1 of None \<Rightarrow> None | Some w \<Rightarrow> map_of NUMBER_WORDS w)
           | None \<Rightarrow>
               (case search rating_fallback_pat t of
                  Some m3 \<Rightarrow> to_int_safe (of_group (group m3 1))
                | None \<Rightarrow> None)))"

text \<open>\<^verbatim>\<open>\btype\s*(?:is|:)?\s*([a-zA-Z]+)\b\<close>\<close>

definition type_pat :: regex where
  "type_pat = cat
     [WordB, Str ''type'', many0 is_space, Opt (Alt (Str ''is'') (Str '':'')), many0 is_space,
      Grp 1 (many1 (\<lambda>c. is_az c \<or> is_AZ c)), WordB]"

definition type_keywords :: "string list" where
  "type_keywords = [''electric'', ''gas'', ''solar'', ''battery'', ''diesel'']"

text \<open>\<^verbatim>\<open>\b{kw}\b\<close> for a word or phrase without special characters, escaped or not.\<close>

definition whole_word :: "string \<Rightarrow> regex" where
  "whole_word kw = cat [WordB, Str kw, WordB]"

text \<open>\<^verbatim>\<open>_extract_type\<close> (its plain name is a command of the prover).\<close>

definition extract_type_py :: "string \<Rightarrow> error + string option" where
  "extract_type_py text =
     (let t = str_lower text in
      case search type_pat t of
        Some m \<Rightarrow>
          (case group m 1 of
             None \<Rightarrow> Inl AttributeError
           | Some w \<Rightarrow> Inr (Some (str_strip w)))
      | None \<Rightarrow> Inr (find (\<lambda>kw. search (whole_word kw) t \<noteq> None) type_keywords))"

text \<open>\<^verbatim>\<open>\b(?:in|for|at)\s+(?:the\s+)?([a-z][a-z ]{1,30})\b\<close>\<close>

definition location_pat :: regex where
  "location_pat = cat
     [WordB, alts [Str ''in'', Str ''for'', Str ''at''], many1 is_space,
      Opt (Seq (Str ''the'') (many1 is_space)),
      Grp 1 (Seq (one_of is_az) (Rep (\<lambda>c. is_az c \<or> c = CHR '' '') 1 (Some 30))),
      WordB]"

text \<open>\<^verbatim>\<open>\b(device|appliance|room|area)\b.*$\<close>\<close>

definition noun_pat :: regex where
  "noun_pat = cat
     [WordB, Grp 1 (alts [Str ''device'', Str ''appliance'', Str ''room'', Str ''area'']), WordB,
      many0 (\<lambda>c. c \<noteq> CHR 0x0A), Eol]"

definition extract_location :: "string \<Rightarrow> error + string option" where
  "extract_location text =
     (let t = str_lower text in
      case find (\<lambda>loc. search (whole_word loc) t \<noteq> None) KNOWN_LOCATIONS of
        Some loc \<Rightarrow> Inr (Some loc)
      | None \<Rightarrow>
          (case search location_pat t of
             Some m \<Rightarrow>
               (case group m 1 of
                  None \<Rightarrow> Inl AttributeError
                | Some g \<Rightarrow>
                    let candidate = str_strip g;
                        candidate = str_strip (re_sub noun_pat [] candidate);
                        ws = str_split candidate;
                        candidate = str_join '' '' (take 3 ws)
                    in Inr (if candidate \<noteq> [] then Some candidate else None))
           | None \<Rightarrow> Inr None))"

text \<open>
  The loop of \<^verbatim>\<open>_extract_device_name\<close> over \<^verbatim>\<open>range(len(words)-1)\<close>; the inner loop over
  the keywords returns the same candidate whichever keyword is found.
\<close>

fun name_loop :: "string list \<Rightarrow> nat list \<Rightarrow> error + string option" where
  "name_loop ws [] = Inr None"
| "name_loop ws (i # rest) =
     and_then (index ws i) (\<lambda>w0.
     and_then (index ws (i + 1)) (\<lambda>w1.
       let two_words = w0 @ '' '' @ w1;
           three_words = str_join '' '' (slice ws i (i + 3))
       in if list_ex (\<lambda>keyword. contains two_words keyword \<or> contains three_words keyword)
               DEVICE_KEYWORDS
          then Inr (Some (str_strip (str_join '' '' (slice ws (max 0 (i - 1)) (i + 3)))))
          else name_loop ws rest))"

definition word_pat :: regex where
  "word_pat = many1 (\<lambda>c. is_az c \<or> is_digit c)"

definition extract_device_name :: "string \<Rightarrow> error + string option" where
  "extract_device_name text =
     (let t = str_lower text;
          ws = findall word_pat t
      in name_loop ws [0..<length ws - 1])"

text \<open>The keyword arguments of \<^verbatim>\<open>DeviceDetails(...)\<close> are evaluated from left to right.\<close>

definition parse_details :: "string \<Rightarrow> error + DeviceDetails" where
  "parse_details text =
     and_then (extract_device_name text) (\<lambda>n.
     and_then (extract_type_py text) (\<lambda>ty.
     and_then (extract_power_watts text) (\<lambda>p.
     let r = extract_rating text in
     and_then (extract_location text) (\<lambda>l.
       Inr \<lparr>name = n, type = ty, powerwatts = p, rating = r, location = l\<rparr>))))"

section \<open>Notions for stating what a match is\<close>

text \<open>The second position lies to the right of the first, in the same text.\<close>

definition reaches :: "mstate \<Rightarrow> mstate \<Rightarrow> bool" where
  "reaches st st' = (\<exists>u. right st = u @ right st' \<and> left st' = rev u @ left st)"

text \<open>
  The strings a pattern can consume, the assertions \<^verbatim>\<open>\b\<close> and \<^verbatim>\<open>$\<close> left aside (they
  consume nothing).
\<close>

primrec lang :: "regex \<Rightarrow> string \<Rightarrow> bool" where
  "lang (Str s) u = (u = s)"
| "lang (StrI s) u = (map lower_char u = map lower_char s)"
| "lang (Rep p lo hi) u =
     (list_all p u \<and> lo \<le> length u \<and> (case hi of None \<Rightarrow> True | Some h \<Rightarrow> length u \<le> h))"
| "lang (Seq a b) u = (\<exists>v w. u = v @ w \<and> lang a v \<and> lang b w)"
| "lang (Alt a b) u = (lang a u \<or> lang b u)"
| "lang (Opt a) u = (lang a u \<or> u = [])"
| "lang (Grp g a) u = lang a u"
| "lang WordB u = (u = [])"
| "lang Eol u = (u = [])"

text \<open>The groups of a pattern with their bodies, and the groups that every match sets.\<close>

primrec grps :: "regex \<Rightarrow> (nat \<times> regex) set" where
  "grps (Str s) = {}"
| "grps (StrI s) = {}"
| "grps (Rep p lo hi) = {}"
| "grps (Seq a b) = grps a \<union> grps b"
| "grps (Alt a b) = grps a \<union> grps b"
| "grps (Opt a) = grps a"
| "grps (Grp g a) = insert (g, a) (grps a)"
| "grps WordB = {}"
| "grps Eol = {}"

primrec must :: "regex \<Rightarrow> nat set" where
  "must (Str s) = {}"
| "must (StrI s) = {}"
| "must (Rep p lo hi) = {}"
| "must (Seq a b) = must a \<union> must b"
| "must (Alt a b) = must a \<inter> must b"
| "must (Opt a) = {}"
| "must (Grp g a) = insert g (must a)"
| "must WordB = {}"
| "must Eol = {}"

text \<open>A word as \<^verbatim>\<open>str.split\<close> yields it: not empty and free of whitespace.\<close>

definition wordy :: "string \<Rightarrow> bool" where
  "wordy w = (w \<noteq> [] \<and> (\<forall>c \<in> set w. \<not> is_space c))"

section \<open>Character classes by bits\<close>

text \<open>
  The classes as decisions on the eight bits of a character (\<open>b7\<close> the highest). These
  are the equations by which the classes are evaluated.
\<close>

lemma is_space_bits [code]:
  "is_space (Char b0 b1 b2 b3 b4 b5 b6 b7) \<longleftrightarrow>
     (if b7 then (\<not> b6 \<and> (if b5 then (\<not> b4 \<and> (\<not> b3 \<and> (\<not> b2 \<and> (\<not> b1 \<and> \<not> b0)))) else (\<not> b4 \<and> (\<not> b3 \<and> (b2 \<and> (\<not> b1 \<and> b0)))))) else (\<not> b6 \<and> (if b5 then (\<not> b4 \<and> (\<not> b3 \<and> (\<not> b2 \<and> (\<not> b1 \<and> \<not> b0)))) else (if b4 then (b3 \<and> b2) else (b3 \<and> (if b2 then \<not> b1 else (b1 \<or> b0)))))))"
  by (cases b7; cases b6; cases b5; cases b4; cases b3; cases b2; cases b1; cases b0;
      simp add: is_space_def whitespace_def)

lemma is_digit_bits [code]:
  "is_digit (Char b0 b1 b2 b3 b4 b5 b6 b7) \<longleftrightarrow>
     (\<not> b7 \<and> (\<not> b6 \<and> (b5 \<and> (b4 \<and> (\<not> b3 \<or> (\<not> b2 \<and> \<not> b1))))))"
  by (cases b7; cases b6; cases b5; cases b4; cases b3; cases b2; cases b1; cases b0;
      simp add: is_digit_def ascii_digits_def)

lemma is_az_bits [code]:
  "is_az (Char b0 b1 b2 b3 b4 b5 b6 b7) \<longleftrightarrow>
     (\<not> b7 \<and> (b6 \<and> (b5 \<and> (if b4 then (\<not> b3 \<or> (\<not> b2 \<and> (\<not> b1 \<or> \<not> b0))) else (b3 \<or> (b2 \<or> (b1 \<or> b0)))))))"
  by (cases b7; cases b6; cases b5; cases b4; cases b3; cases b2; cases b1; cases b0;
      simp add: is_az_def ascii_lowercase_def)

lemma is_AZ_bits [code]:
  "is_AZ (Char b0 b1 b2 b3 b4 b5 b6 b7) \<longleftrightarrow>
     (\<not> b7 \<and> (b6 \<and> (\<not> b5 \<and> (if b4 then (\<not> b3 \<or> (\<not> b2 \<and> (\<not> b1 \<or> \<not> b0))) else (b3 \<or> (b2 \<or> (b1 \<or> b0)))))))"
  by (cases b7; cases b6; cases b5; cases b4; cases b3; cases b2; cases b1; cases b0;
      simp add: is_AZ_def ascii_uppercase_def)

lemma is_word_bits [code]:
  "is_word (Char b0 b1 b2 b3 b4 b5 b6 b7) \<longleftrightarrow>
     (if b7 then (if b6 then (if b5 then (\<not> b4 \<or> (b3 \<or> (\<not> b2 \<or> (\<not> b1 \<or> \<not> b0)))) else (\<not> b4 \<or> (b3 \<or> (\<not> b2 \<or> (\<not> b1 \<or> \<not> b0))))) else (b5 \<and> (if b4 then (if b3 then (if b2 then (\<not> b1 \<or> \<not> b0) else (if b1 then \<not> b0 else b0)) else (if b2 then (\<not> b1 \<and> b0) else b1)) else (b3 \<and> (\<not> b2 \<and> (b1 \<and> \<not> b0)))))) else (if b6 then (if b5 then (if b4 then (\<not> b3 \<or> (\<not> b2 \<and> (\<not> b1 \<or> \<not> b0))) else (b3 \<or> (b2 \<or> (b1 \<or> b0)))) else (if b4 then (\<not> b3 \<or> (if b2 then (b1 \<and> b0) else (\<not> b1 \<or> \<not> b0))) else (b3 \<or> (b2 \<or> (b1 \<or> b0))))) else (b5 \<and> (b4 \<and> (\<not> b3 \<or> (\<not> b2 \<and> \<not> b1))))))"
  by (cases b7; cases b6; cases b5; cases b4; cases b3; cases b2; cases b1; cases b0;
      simp add: is_word_def is_az_bits is_digit_bits is_AZ_bits latin1_lowercase_def latin1_uppercase_def latin1_other_def)

lemma lower_char_bits [code]:
  "lower_char (Char b0 b1 b2 b3 b4 b5 b6 b7) =
     (if (if b7 then (b6 \<and> (\<not> b5 \<and> (\<not> b4 \<or> (if b3 then (\<not> b2 \<or> (\<not> b1 \<or> \<not> b0)) else (\<not> b2 \<or> (\<not> b1 \<or> \<not> b0)))))) else (b6 \<and> (\<not> b5 \<and> (if b4 then (\<not> b3 \<or> (\<not> b2 \<and> (\<not> b1 \<or> \<not> b0))) else (b3 \<or> (b2 \<or> (b1 \<or> b0)))))))
      then Char b0 b1 b2 b3 b4 True b6 b7 else Char b0 b1 b2 b3 b4 b5 b6 b7)"
  by (cases b7; cases b6; cases b5; cases b4; cases b3; cases b2; cases b1; cases b0;
      simp add: lower_char_def ascii_uppercase_def latin1_uppercase_def)

section \<open>The matcher\<close>

lemma reaches_refl: "reaches st st"
  by (simp add: reaches_def)

lemma reaches_trans: "reaches a b \<Longrightarrow> reaches b c \<Longrightarrow> reaches a c"
  by (auto simp: reaches_def)

lemma reaches_advance: "n \<le> length (right st) \<Longrightarrow> reaches st (advance n st)"
  unfolding reaches_def advance_def
  by (rule exI[of _ "take n (right st)"]) simp

lemma reaches_consumed: "reaches st st' \<Longrightarrow> right st = consumed st st' @ right st'"
  by (auto simp: reaches_def consumed_def)

lemma consumed_append:
  "reaches a b \<Longrightarrow> reaches b c \<Longrightarrow> consumed a c = consumed a b @ consumed b c"
  by (auto simp: reaches_def consumed_def)

lemma consumed_advance: "n \<le> length (right st) \<Longrightarrow> consumed st (advance n st) = take n (right st)"
  by (simp add: consumed_def advance_def)

lemma consumed_self: "consumed st st = []"
  by (simp add: consumed_def)

lemma take_eq_length: "take (length s) xs = s \<Longrightarrow> length s \<le> length xs"
proof -
  assume "take (length s) xs = s"
  then have "length (take (length s) xs) = length s" by simp
  then show ?thesis by simp
qed

lemma map_take_eq_length: "map f (take (length s) xs) = map g s \<Longrightarrow> length s \<le> length xs"
proof -
  assume "map f (take (length s) xs) = map g s"
  then have "length (map f (take (length s) xs)) = length (map g s)" by simp
  then show ?thesis by simp
qed

lemma reaches_Str: "st' \<in> set (rmatch (Str s) st) \<Longrightarrow> reaches st st'"
proof -
  assume a: "st' \<in> set (rmatch (Str s) st)"
  then have t: "take (length s) (right st) = s" and e: "st' = advance (length s) st"
    by (simp_all split: if_splits)
  from t have "length s \<le> length (right st)" by (rule take_eq_length)
  then show ?thesis unfolding e by (rule reaches_advance)
qed

lemma reaches_StrI: "st' \<in> set (rmatch (StrI s) st) \<Longrightarrow> reaches st st'"
proof -
  assume a: "st' \<in> set (rmatch (StrI s) st)"
  then have t: "map lower_char (take (length s) (right st)) = map lower_char s"
    and e: "st' = advance (length s) st"
    by (simp_all split: if_splits)
  from t have "length s \<le> length (right st)" by (rule map_take_eq_length)
  then show ?thesis unfolding e by (rule reaches_advance)
qed

lemma rmatch_Rep_iff:
  "st' \<in> set (rmatch (Rep p lo hi) st) \<longleftrightarrow>
     (\<exists>j. st' = advance j st \<and> lo \<le> j \<and> j \<le> length (takeWhile p (right st)) \<and>
        (case hi of None \<Rightarrow> True | Some h \<Rightarrow> j \<le> h))"
  by (cases hi) (auto simp: Let_def)

lemma reaches_Rep: "st' \<in> set (rmatch (Rep p lo hi) st) \<Longrightarrow> reaches st st'"
proof -
  assume "st' \<in> set (rmatch (Rep p lo hi) st)"
  then obtain j where e: "st' = advance j st" and j: "j \<le> length (takeWhile p (right st))"
    unfolding rmatch_Rep_iff by blast
  have "length (takeWhile p (right st)) \<le> length (right st)" by (rule length_takeWhile_le)
  with j have "j \<le> length (right st)" by simp
  then show ?thesis unfolding e by (rule reaches_advance)
qed


lemma rmatch_reaches: "st' \<in> set (rmatch r st) \<Longrightarrow> reaches st st'"
proof (induction r arbitrary: st st')
  case (Str s)
  then show ?case by (rule reaches_Str)
next
  case (StrI s)
  then show ?case by (rule reaches_StrI)
next
  case (Rep p lo hi)
  then show ?case by (rule reaches_Rep)
next
  case (Seq a b)
  from Seq.prems obtain m where "m \<in> set (rmatch a st)" and "st' \<in> set (rmatch b m)"
    by auto
  then show ?case using Seq.IH by (blast intro: reaches_trans)
next
  case (Alt a b)
  then show ?case by auto
next
  case (Opt a)
  then show ?case by (auto simp: reaches_refl)
next
  case (Grp g a)
  from Grp.prems obtain m where m: "m \<in> set (rmatch a st)"
    and e: "st' = St (left m) (right m) ((g, consumed st m) # caps m)"
    by auto
  from Grp.IH[OF m] show ?case unfolding e by (simp add: reaches_def)
next
  case WordB
  then show ?case by (simp add: reaches_refl split: if_splits)
next
  case Eol
  then show ?case by (simp add: reaches_refl split: if_splits)
qed

lemma consumed_Grp [simp]:
  "consumed st (St (left m) (right m) c) = consumed st m"
  by (simp add: consumed_def)

lemma rmatch_lang: "st' \<in> set (rmatch r st) \<Longrightarrow> lang r (consumed st st')"
proof (induction r arbitrary: st st')
  case (Str s)
  then have t: "take (length s) (right st) = s" and e: "st' = advance (length s) st"
    by (simp_all split: if_splits)
  from t have "length s \<le> length (right st)" by (rule take_eq_length)
  then show ?case unfolding e by (simp add: consumed_advance t)
next
  case (StrI s)
  then have t: "map lower_char (take (length s) (right st)) = map lower_char s"
    and e: "st' = advance (length s) st"
    by (simp_all split: if_splits)
  from t have "length s \<le> length (right st)" by (rule map_take_eq_length)
  then show ?case unfolding e by (simp add: consumed_advance t)
next
  case (Rep p lo hi)
  then obtain j where e: "st' = advance j st" and lo: "lo \<le> j"
    and j: "j \<le> length (takeWhile p (right st))"
    and hi: "case hi of None \<Rightarrow> True | Some h \<Rightarrow> j \<le> h"
    unfolding rmatch_Rep_iff by blast
  have le: "length (takeWhile p (right st)) \<le> length (right st)" by (rule length_takeWhile_le)
  with j have jl: "j \<le> length (right st)" by simp
  have "take j (right st) = take j (takeWhile p (right st))"
    using j by (metis append_eq_conv_conj takeWhile_dropWhile_id take_take min.absorb1 take_append
        diff_is_0_eq' take0 append_Nil2)
  moreover have "list_all p (takeWhile p (right st))"
    by (simp add: list_all_iff) (meson set_takeWhileD)
  ultimately have "list_all p (take j (right st))"
    by (metis list_all_iff in_set_takeD)
  then show ?case unfolding e using lo hi jl
    by (auto simp: consumed_advance split: option.splits)
next
  case (Seq a b)
  from Seq.prems obtain m where m: "m \<in> set (rmatch a st)" and s: "st' \<in> set (rmatch b m)"
    by auto
  have "consumed st st' = consumed st m @ consumed m st'"
    using m s by (intro consumed_append rmatch_reaches)
  then show ?case using Seq.IH(1)[OF m] Seq.IH(2)[OF s] by auto
next
  case (Alt a b)
  then show ?case by auto
next
  case (Opt a)
  then show ?case by (auto simp: consumed_self)
next
  case (Grp g a)
  then show ?case by auto
next
  case WordB
  then show ?case by (simp add: consumed_self split: if_splits)
next
  case Eol
  then show ?case by (simp add: consumed_self split: if_splits)
qed


lemma caps_advance [simp]: "caps (advance n st) = caps st"
  by (simp add: advance_def)

lemma rmatch_caps:
  "st' \<in> set (rmatch r st) \<Longrightarrow>
     \<exists>new. caps st' = new @ caps st \<and>
       (\<forall>(g, u) \<in> set new. \<exists>a. (g, a) \<in> grps r \<and> lang a u) \<and>
       must r \<subseteq> fst ` set new"
proof (induction r arbitrary: st st')
  case (Str s)
  then show ?case by (auto split: if_splits)
next
  case (StrI s)
  then show ?case by (auto split: if_splits)
next
  case (Rep p lo hi)
  then obtain j where "st' = advance j st" unfolding rmatch_Rep_iff by blast
  then show ?case by simp
next
  case (Seq a b)
  from Seq.prems obtain m where m: "m \<in> set (rmatch a st)" and s: "st' \<in> set (rmatch b m)"
    by auto
  from Seq.IH(1)[OF m] obtain n1 where n1: "caps m = n1 @ caps st"
    "\<forall>(g, u) \<in> set n1. \<exists>x. (g, x) \<in> grps a \<and> lang x u" "must a \<subseteq> fst ` set n1"
    by blast
  from Seq.IH(2)[OF s] obtain n2 where n2: "caps st' = n2 @ caps m"
    "\<forall>(g, u) \<in> set n2. \<exists>x. (g, x) \<in> grps b \<and> lang x u" "must b \<subseteq> fst ` set n2"
    by blast
  have "caps st' = (n2 @ n1) @ caps st" using n1(1) n2(1) by simp
  moreover have "\<forall>(g, u) \<in> set (n2 @ n1). \<exists>x. (g, x) \<in> grps (Seq a b) \<and> lang x u"
    using n1(2) n2(2) by fastforce
  moreover have "must (Seq a b) \<subseteq> fst ` set (n2 @ n1)"
    using n1(3) n2(3) by auto
  ultimately show ?case by blast
next
  case (Alt a b)
  from Alt.prems have "st' \<in> set (rmatch a st) \<or> st' \<in> set (rmatch b st)" by auto
  then show ?case
  proof
    assume "st' \<in> set (rmatch a st)"
    from Alt.IH(1)[OF this] obtain n1 where n1: "caps st' = n1 @ caps st"
      "\<forall>(g, u) \<in> set n1. \<exists>x. (g, x) \<in> grps a \<and> lang x u" "must a \<subseteq> fst ` set n1"
      by blast
    have "\<forall>(g, u) \<in> set n1. \<exists>x. (g, x) \<in> grps (Alt a b) \<and> lang x u"
      using n1(2) by fastforce
    moreover have "must (Alt a b) \<subseteq> fst ` set n1" using n1(3) by auto
    ultimately show ?thesis using n1(1) by blast
  next
    assume "st' \<in> set (rmatch b st)"
    from Alt.IH(2)[OF this] obtain n1 where n1: "caps st' = n1 @ caps st"
      "\<forall>(g, u) \<in> set n1. \<exists>x. (g, x) \<in> grps b \<and> lang x u" "must b \<subseteq> fst ` set n1"
      by blast
    have "\<forall>(g, u) \<in> set n1. \<exists>x. (g, x) \<in> grps (Alt a b) \<and> lang x u"
      using n1(2) by fastforce
    moreover have "must (Alt a b) \<subseteq> fst ` set n1" using n1(3) by auto
    ultimately show ?thesis using n1(1) by blast
  qed
next
  case (Opt a)
  from Opt.prems have "st' \<in> set (rmatch a st) \<or> st' = st" by auto
  then show ?case
  proof
    assume "st' \<in> set (rmatch a st)"
    from Opt.IH[OF this] obtain n1 where n1: "caps st' = n1 @ caps st"
      "\<forall>(g, u) \<in> set n1. \<exists>x. (g, x) \<in> grps a \<and> lang x u"
      by blast
    then show ?thesis by (intro exI[of _ n1]) simp
  next
    assume "st' = st"
    then show ?thesis by (intro exI[of _ "[]"]) simp
  qed
next
  case (Grp g a)
  from Grp.prems obtain m where m: "m \<in> set (rmatch a st)"
    and e: "st' = St (left m) (right m) ((g, consumed st m) # caps m)"
    by auto
  from Grp.IH[OF m] obtain n1 where n1: "caps m = n1 @ caps st"
    "\<forall>(g, u) \<in> set n1. \<exists>x. (g, x) \<in> grps a \<and> lang x u" "must a \<subseteq> fst ` set n1"
    by blast
  have l: "lang a (consumed st m)" using m by (rule rmatch_lang)
  have "caps st' = ((g, consumed st m) # n1) @ caps st" using e n1(1) by simp
  moreover have "\<forall>(h, u) \<in> set ((g, consumed st m) # n1). \<exists>x. (h, x) \<in> grps (Grp g a) \<and> lang x u"
    using n1(2) l by fastforce
  moreover have "must (Grp g a) \<subseteq> fst ` set ((g, consumed st m) # n1)"
    using n1(3) by auto
  ultimately show ?case by blast
next
  case WordB
  then show ?case by (auto split: if_splits)
next
  case Eol
  then show ?case by (auto split: if_splits)
qed

lemma rmatch_group_lang:
  assumes "st' \<in> set (rmatch r st)" and "caps st = []" and "map_of (caps st') g = Some u"
  shows "\<exists>a. (g, a) \<in> grps r \<and> lang a u"
proof -
  from rmatch_caps[OF assms(1)] assms(2) have
    "\<forall>(g, u) \<in> set (caps st'). \<exists>a. (g, a) \<in> grps r \<and> lang a u" by auto
  moreover from assms(3) have "(g, u) \<in> set (caps st')" by (rule map_of_SomeD)
  ultimately show ?thesis by blast
qed

lemma rmatch_group_defined:
  assumes "st' \<in> set (rmatch r st)" and "g \<in> must r"
  shows "\<exists>u. map_of (caps st') g = Some u"
proof -
  from rmatch_caps[OF assms(1)] obtain new where n: "caps st' = new @ caps st"
    "must r \<subseteq> fst ` set new" by blast
  with assms(2) have "g \<in> fst ` set (caps st')" by auto
  then have "map_of (caps st') g \<noteq> None" by (simp add: map_of_eq_None_iff)
  then show ?thesis by blast
qed

text \<open>\<^verbatim>\<open>re.search\<close> reports the leftmost position at which the pattern matches.\<close>

lemma search_at_None:
  "search_at r l cs = None \<longleftrightarrow> (\<forall>u v. cs = u @ v \<longrightarrow> rmatch r (St (rev u @ l) v []) = [])"
proof (induction cs arbitrary: l)
  case Nil
  then show ?case by (simp split: list.splits)
next
  case (Cons c cs)
  show ?case
  proof (cases "rmatch r (St l (c # cs) [])")
    case Nil
    have "(\<forall>u v. c # cs = u @ v \<longrightarrow> rmatch r (St (rev u @ l) v []) = []) \<longleftrightarrow>
          (\<forall>u v. cs = u @ v \<longrightarrow> rmatch r (St (rev u @ c # l) v []) = [])"
      (is "?A \<longleftrightarrow> ?B")
    proof
      assume a: ?A
      show ?B
      proof (intro allI impI)
        fix u v assume "cs = u @ v"
        then have "c # cs = (c # u) @ v" by simp
        from a[rule_format, OF this] show "rmatch r (St (rev u @ c # l) v []) = []" by simp
      qed
    next
      assume b: ?B
      show ?A
      proof (intro allI impI)
        fix u v assume e: "c # cs = u @ v"
        show "rmatch r (St (rev u @ l) v []) = []"
        proof (cases u)
          case Nil
          with e show ?thesis using \<open>rmatch r (St l (c # cs) []) = []\<close> by simp
        next
          case (Cons x xs)
          with e have "cs = xs @ v" and "x = c" by simp_all
          from b[rule_format, OF this(1)] show ?thesis using Cons \<open>x = c\<close> by simp
        qed
      qed
    qed
    then show ?thesis using Nil Cons.IH[of "c # l"] by simp
  next
    case (Cons a list)
    have "\<not> (\<forall>u v. c # cs = u @ v \<longrightarrow> rmatch r (St (rev u @ l) v []) = [])"
    proof
      assume "\<forall>u v. c # cs = u @ v \<longrightarrow> rmatch r (St (rev u @ l) v []) = []"
      then have "rmatch r (St (rev [] @ l) (c # cs) []) = []" by (metis append_Nil)
      with Cons show False by simp
    qed
    then show ?thesis using Cons by simp
  qed
qed

lemma search_at_Some:
  "search_at r l cs = Some m \<Longrightarrow>
     \<exists>u v st' sts. cs = u @ v \<and> rmatch r (St (rev u @ l) v []) = st' # sts \<and>
        m = mk_match (St (rev u @ l) v []) st' \<and>
        (\<forall>u' v'. cs = u' @ v' \<and> length u' < length u \<longrightarrow> rmatch r (St (rev u' @ l) v' []) = [])"
proof (induction cs arbitrary: l)
  case Nil
  then show ?case by (auto split: list.splits)
next
  case (Cons c cs)
  show ?case
  proof (cases "rmatch r (St l (c # cs) [])")
    case Nil
    with Cons.prems have "search_at r (c # l) cs = Some m" by simp
    from Cons.IH[OF this] obtain u v st' sts where h: "cs = u @ v"
      "rmatch r (St (rev u @ c # l) v []) = st' # sts"
      "m = mk_match (St (rev u @ c # l) v []) st'"
      "\<forall>u' v'. cs = u' @ v' \<and> length u' < length u \<longrightarrow> rmatch r (St (rev u' @ c # l) v' []) = []"
      by blast
    have "\<forall>u' v'. c # cs = u' @ v' \<and> length u' < length (c # u) \<longrightarrow>
            rmatch r (St (rev u' @ l) v' []) = []"
    proof (intro allI impI)
      fix u' v' assume a: "c # cs = u' @ v' \<and> length u' < length (c # u)"
      show "rmatch r (St (rev u' @ l) v' []) = []"
      proof (cases u')
        case Nil
        with a show ?thesis using \<open>rmatch r (St l (c # cs) []) = []\<close> by simp
      next
        case (Cons x xs)
        with a have "cs = xs @ v' \<and> length xs < length u" and "x = c" by simp_all
        from h(4)[rule_format, OF this(1)] show ?thesis using Cons \<open>x = c\<close> by simp
      qed
    qed
    with h(1,2,3) show ?thesis
      by (intro exI[of _ "c # u"] exI[of _ v] exI[of _ st'] exI[of _ sts]) simp
  next
    case (Cons a list)
    with Cons.prems have "m = mk_match (St l (c # cs) []) a" by simp
    with Cons show ?thesis
      by (intro exI[of _ "[]"] exI[of _ "c # cs"] exI[of _ a] exI[of _ list]) simp
  qed
qed

section \<open>Scanning for all matches\<close>

lemma matches_of_simps [simp]:
  "matches_of [] = []"
  "matches_of (Inl c # xs) = matches_of xs"
  "matches_of (Inr m # xs) = m # matches_of xs"
  by (simp_all add: matches_of_def)

lemma set_matches_of: "set (matches_of xs) = {m. Inr m \<in> set xs}"
  by (induction xs) (auto simp: matches_of_def split: sum.splits)

lemma scan_first:
  "(case matches_of (scan r 0 l cs) of [] \<Rightarrow> None | m # ms \<Rightarrow> Some m) = search_at r l cs"
proof (induction cs arbitrary: l)
  case Nil
  then show ?case by (simp split: list.splits)
next
  case (Cons c cs)
  show ?case
  proof (cases "rmatch r (St l (c # cs) [])")
    case Nil
    then show ?thesis using Cons.IH[of "c # l"] by simp
  next
    case (Cons a list)
    then show ?thesis by (simp add: Let_def)
  qed
qed

lemma finditer_search:
  "(case finditer r t of [] \<Rightarrow> None | m # ms \<Rightarrow> Some m) = search r t"
  unfolding finditer_def search_def by (rule scan_first)

lemma scan_matches:
  "Inr m \<in> set (scan r n l cs) \<Longrightarrow>
     \<exists>st st'. caps st = [] \<and> st' \<in> set (rmatch r st) \<and> m = mk_match st st'"
proof (induction cs arbitrary: n l)
  case Nil
  show ?case
  proof (cases n)
    case 0
    with Nil obtain st' sts where "rmatch r (St l [] []) = st' # sts" "m = mk_match (St l [] []) st'"
      by (cases "rmatch r (St l [] [])") auto
    then show ?thesis by (intro exI[of _ "St l [] []"] exI[of _ st']) simp
  next
    case (Suc k)
    with Nil show ?thesis by simp
  qed
next
  case (Cons c cs)
  show ?case
  proof (cases n)
    case (Suc k)
    with Cons.prems have "Inr m \<in> set (scan r k (c # l) cs)" by simp
    then show ?thesis by (rule Cons.IH)
  next
    case 0
    let ?st = "St l (c # cs) []"
    show ?thesis
    proof (cases "rmatch r ?st")
      case Nil
      with Cons.prems 0 have "Inr m \<in> set (scan r 0 (c # l) cs)" by (simp add: Let_def)
      then show ?thesis by (rule Cons.IH)
    next
      case (Cons st' sts)
      note rm = Cons
      show ?thesis
      proof (cases "consumed ?st st' \<noteq> []")
        case True
        with rm Cons.prems 0
        have "m = mk_match ?st st' \<or> Inr m \<in> set (scan r (length (consumed ?st st') - 1) (c # l) cs)"
          by (simp add: Let_def)
        then show ?thesis
        proof
          assume "m = mk_match ?st st'"
          with rm show ?thesis by (intro exI[of _ ?st] exI[of _ st']) simp
        next
          assume "Inr m \<in> set (scan r (length (consumed ?st st') - 1) (c # l) cs)"
          then show ?thesis by (rule Cons.IH)
        qed
      next
        case False
        show ?thesis
        proof (cases "filter (\<lambda>s. consumed ?st s \<noteq> []) sts")
          case Nil
          with False rm Cons.prems 0
          have "m = mk_match ?st st' \<or> Inr m \<in> set (scan r 0 (c # l) cs)"
            by (simp add: Let_def)
          then show ?thesis
          proof
            assume "m = mk_match ?st st'"
            with rm show ?thesis by (intro exI[of _ ?st] exI[of _ st']) simp
          next
            assume "Inr m \<in> set (scan r 0 (c # l) cs)"
            then show ?thesis by (rule Cons.IH)
          qed
        next
          case (Cons s2 ss)
          then have "s2 \<in> set (filter (\<lambda>s. consumed ?st s \<noteq> []) sts)" by simp
          then have s2: "s2 \<in> set (rmatch r ?st)" using rm by simp
          from Cons False rm Cons.prems 0
          have "m = mk_match ?st st' \<or> m = mk_match ?st s2 \<or>
                Inr m \<in> set (scan r (length (consumed ?st s2) - 1) (c # l) cs)"
            by (simp add: Let_def)
          then show ?thesis
          proof (elim disjE)
            assume "m = mk_match ?st st'"
            with rm show ?thesis by (intro exI[of _ ?st] exI[of _ st']) simp
          next
            assume "m = mk_match ?st s2"
            with s2 show ?thesis by (intro exI[of _ ?st] exI[of _ s2]) simp
          next
            assume "Inr m \<in> set (scan r (length (consumed ?st s2) - 1) (c # l) cs)"
            then show ?thesis by (rule Cons.IH)
          qed
        qed
      qed
    qed
  qed
qed

lemma finditer_matches:
  "m \<in> set (finditer r t) \<Longrightarrow>
     \<exists>st st'. caps st = [] \<and> st' \<in> set (rmatch r st) \<and> m = mk_match st st'"
  unfolding finditer_def set_matches_of using scan_matches by blast

lemma findall_lang: "w \<in> set (findall r t) \<Longrightarrow> lang r w"
proof -
  assume "w \<in> set (findall r t)"
  then obtain m where "m \<in> set (finditer r t)" "w = m_text m" by (auto simp: findall_def)
  with finditer_matches obtain st st' where "st' \<in> set (rmatch r st)" "m = mk_match st st'"
    by blast
  then show ?thesis using \<open>w = m_text m\<close> by (simp add: mk_match_def rmatch_lang)
qed

text \<open>The characters that \<^verbatim>\<open>re.sub\<close> keeps come from the text.\<close>

lemma scan_chars: "Inl x \<in> set (scan r n l cs) \<Longrightarrow> x \<in> set cs"
proof (induction cs arbitrary: n l)
  case Nil
  then show ?case by (cases n) (auto split: list.splits)
next
  case (Cons c cs)
  show ?case
  proof (cases n)
    case (Suc k)
    with Cons.prems have "Inl x \<in> set (scan r k (c # l) cs)" by simp
    then show ?thesis using Cons.IH by simp
  next
    case 0
    with Cons.prems have "x = c \<or> (\<exists>k. Inl x \<in> set (scan r k (c # l) cs))"
      by (auto simp: Let_def split: list.splits if_splits)
    then show ?thesis using Cons.IH by auto
  qed
qed

lemma re_sub_empty_chars: "set (re_sub r [] t) \<subseteq> set t"
  by (auto simp: re_sub_def split: sum.splits dest: scan_chars)

section \<open>Characters and strings: facts\<close>

lemma lower_char_az: "is_az c \<Longrightarrow> lower_char c = c"
  by (cases c) (simp add: is_az_bits lower_char_bits)

lemma lower_char_space: "lower_char (CHR '' '') = CHR '' ''"
  by (simp add: lower_char_bits)

lemma lower_char_digit: "is_digit c \<Longrightarrow> lower_char c = c"
  by (cases c) (simp add: is_digit_bits lower_char_bits)

lemma not_AZ_lower: "\<not> is_AZ (lower_char c)"
  by (cases c) (auto simp: is_AZ_bits lower_char_bits)

lemma lower_char_idem: "lower_char (lower_char c) = lower_char c"
  by (cases c) (auto simp: lower_char_bits)

lemma digit_not_space: "is_digit c \<Longrightarrow> \<not> is_space c"
  by (cases c) (auto simp: is_digit_bits is_space_bits)

lemma az_not_space: "is_az c \<Longrightarrow> \<not> is_space c"
  by (cases c) (auto simp: is_az_bits is_space_bits)

lemma az_word: "is_az c \<Longrightarrow> is_word c"
  by (simp add: is_word_def)

lemma digit_word: "is_digit c \<Longrightarrow> is_word c"
  by (simp add: is_word_def)

lemma space_is_space: "is_space (CHR '' '')"
  by (simp add: is_space_bits)

lemma set_str_strip: "set (str_strip s) \<subseteq> set s"
  by (auto simp: str_strip_def dest!: set_dropWhileD)

lemma str_strip_id:
  assumes "s \<noteq> [] \<Longrightarrow> \<not> is_space (hd s) \<and> \<not> is_space (last s)"
  shows "str_strip s = s"
proof (cases "s = []")
  case True
  then show ?thesis by (simp add: str_strip_def)
next
  case False
  with assms have h: "\<not> is_space (hd s)" and l: "\<not> is_space (last s)" by simp_all
  from h have "dropWhile is_space s = s" by (simp add: dropWhile_eq_self_iff)
  moreover from l False have "dropWhile is_space (rev s) = rev s"
    by (simp add: dropWhile_eq_self_iff hd_rev)
  ultimately show ?thesis by (simp add: str_strip_def)
qed

text \<open>\<^verbatim>\<open>str.split\<close> undoes \<^verbatim>\<open>" ".join\<close> on words.\<close>

lemma split_acc_words:
  "(\<forall>c \<in> set acc. \<not> is_space c) \<Longrightarrow> w \<in> set (split_acc acc s) \<Longrightarrow>
     wordy w \<and> set w \<subseteq> set acc \<union> set s"
proof (induction s arbitrary: acc)
  case Nil
  then show ?case by (auto simp: wordy_def split: if_splits)
next
  case (Cons c cs)
  show ?case
  proof (cases "is_space c")
    case True
    with Cons.prems have "w = acc \<and> acc \<noteq> [] \<or> w \<in> set (split_acc [] cs)"
      by (auto split: if_splits)
    then show ?thesis
    proof
      assume "w = acc \<and> acc \<noteq> []"
      with Cons.prems(1) show ?thesis by (auto simp: wordy_def)
    next
      assume "w \<in> set (split_acc [] cs)"
      with Cons.IH[of "[]"] show ?thesis by auto
    qed
  next
    case False
    with Cons.prems have "w \<in> set (split_acc (acc @ [c]) cs)" by simp
    moreover have "\<forall>x \<in> set (acc @ [c]). \<not> is_space x" using False Cons.prems(1) by simp
    ultimately show ?thesis using Cons.IH[of "acc @ [c]"] by auto
  qed
qed

lemma str_split_words: "w \<in> set (str_split s) \<Longrightarrow> wordy w \<and> set w \<subseteq> set s"
  using split_acc_words[of "[]" w s] by (simp add: str_split_def)

lemma split_acc_app:
  "(\<forall>c \<in> set w. \<not> is_space c) \<Longrightarrow> split_acc acc (w @ s) = split_acc (acc @ w) s"
  by (induction w arbitrary: acc) simp_all

lemma split_join:
  "(\<forall>w \<in> set ws. wordy w) \<Longrightarrow> split_acc [] (str_join '' '' ws) = ws"
proof (induction ws)
  case Nil
  then show ?case by simp
next
  case (Cons w ws)
  then have w: "wordy w" by simp
  show ?case
  proof (cases ws)
    case Nil
    have "split_acc [] (w @ []) = split_acc ([] @ w) []"
      using w unfolding wordy_def by (intro split_acc_app) simp
    with w Nil show ?thesis by (simp add: wordy_def)
  next
    case (Cons v vs)
    with Cons.IH Cons.prems have r: "split_acc [] (str_join '' '' (v # vs)) = v # vs"
      by simp
    have "split_acc [] (w @ '' '' @ str_join '' '' (v # vs)) =
          split_acc ([] @ w) ('' '' @ str_join '' '' (v # vs))"
      using w unfolding wordy_def by (intro split_acc_app) simp
    also have "\<dots> = w # split_acc [] (str_join '' '' (v # vs))"
      using w by (simp add: wordy_def space_is_space)
    finally show ?thesis using r Cons by simp
  qed
qed

lemma str_split_join: "(\<forall>w \<in> set ws. wordy w) \<Longrightarrow> str_split (str_join '' '' ws) = ws"
  unfolding str_split_def by (rule split_join)

lemma set_str_join: "set (str_join sep ws) \<subseteq> set sep \<union> \<Union> (set ` set ws)"
  by (induction sep ws rule: str_join.induct) auto

lemma str_join_Nil_iff: "(\<forall>w \<in> set ws. w \<noteq> []) \<Longrightarrow> str_join sep ws = [] \<longleftrightarrow> ws = []"
  by (induction sep ws rule: str_join.induct) auto

section \<open>The claims\<close>

text \<open>
  C2. \<^verbatim>\<open>parse_details("")\<close> returns a record in which all five fields (name, type,
  powerwatts, rating, location) are absent.
\<close>

theorem parse_details_empty:
  "parse_details [] =
     Inr \<lparr>name = None, type = None, powerwatts = None, rating = None, location = None\<rparr>"
  by code_simp

end
